theory Spec2Isabelle
  imports Main "HOL-Library.Word" "HOL-Library.Signed_Division"
begin

section \<open>Machine integers and the C library\<close>

text \<open>
  The fields of \<open>Args\<close> are C \<open>int\<close>s: 32-bit two's complement values. They are words
  of 32 bits, read through \<open>sint\<close>; the comparisons of the source are the signed ones
  (\<open>\<le>s\<close>, \<open><s\<close>). The C standard leaves the overflow of a signed operation undefined;
  here \<open>+\<close>, \<open>-\<close> and \<open>*\<close> wrap around, as the machine instructions do.
\<close>

type_synonym int32 = "32 word"

text \<open>
  The operator \<open>%\<close> of C on \<open>int\<close>: the remainder of the division that truncates
  towards zero (\<open>smod\<close> on the integers). \<open>parse\<close> applies it to a positive divisor
  only, after its assertion.
\<close>

definition c_rem :: "int32 \<Rightarrow> int32 \<Rightarrow> int32" where
  "c_rem a b = word_of_int (sint a smod sint b)"

definition isspace :: "char \<Rightarrow> bool" where
  "isspace c \<longleftrightarrow> c \<in> set [CHR '' '', CHR 0x09, CHR 0x0A, CHR 0x0B, CHR 0x0C, CHR 0x0D]"

definition isdigit :: "char \<Rightarrow> bool" where
  "isdigit c \<longleftrightarrow> (48::nat) \<le> of_char c \<and> of_char c \<le> (57::nat)"

text \<open>The decimal digits at the head of a string, accumulated up to the first other character.\<close>

fun digits_val :: "int \<Rightarrow> string \<Rightarrow> int" where
  "digits_val acc [] = acc"
| "digits_val acc (c # cs) =
     (if isdigit c then digits_val (acc * 10 + (int (of_char c) - 48)) cs else acc)"

text \<open>
  \<open>strtol(s, NULL, 10)\<close> with a 64-bit \<open>long\<close>: white space is skipped, one sign is
  read, then the digits; a string with no digit there gives 0, and a value beyond the
  range of \<open>long\<close> is clamped to it.
\<close>

definition strtol10 :: "string \<Rightarrow> int" where
  "strtol10 s =
     (let s1 = dropWhile isspace s;
          neg = (case s1 of [] \<Rightarrow> False | c # r \<Rightarrow> c = CHR ''-'');
          s2 = (case s1 of [] \<Rightarrow> [] | c # r \<Rightarrow> if c = CHR ''-'' \<or> c = CHR ''+'' then r else s1);
          v = digits_val 0 s2;
          v = (if neg then - v else v)
      in max (- (2 ^ 63)) (min (2 ^ 63 - 1) v))"

text \<open>
  \<open>atoi\<close> of the C library, as glibc defines it: \<open>(int) strtol(s, NULL, 10)\<close>. The C
  standard leaves its value undefined when the number does not fit an \<open>int\<close>; the
  conversion to \<open>int\<close> keeps the low 32 bits here.
\<close>

definition atoi :: "string \<Rightarrow> int32" where
  "atoi s = word_of_int (strtol10 s)"

section \<open>The external collaborators: Logger and DeviceEnumerator\<close>

text \<open>
  Modelled from the spec: \<open>log\<close> of common.h, which is not part of the given source. The
  spec describes it as the Logger's \<open>write(formatString, args...)\<close>, which returns
  nothing. A call of it is recorded with its format string and its arguments; the output
  of a run is the list of the calls made, in order.
\<close>

datatype log_arg = D int32 | S string

type_synonym log_call = "string \<times> log_arg list"

definition log :: "string \<Rightarrow> log_arg list \<Rightarrow> log_call list \<Rightarrow> log_call list" where
  "log fmt args out = out @ [(fmt, args)]"

text \<open>
  The functions of clwrap.h that \<open>parse\<close> calls are not part of the given source either.
  The platform is a parameter: the number \<open>getNumberOfDevices()\<close> returns, the devices
  the platform has, and the description \<open>getDeviceInfo\<close> gives of each.
\<close>

type_synonym cl_device_id = nat

record clwrap =
  getNumberOfDevices :: int32
  allDevices :: "cl_device_id list"
  getDeviceInfo :: "cl_device_id \<Rightarrow> string"

text \<open>
  Modelled from the spec: \<open>getDeviceIDs\<close> of clwrap.h, which is not part of the given
  source. The spec describes it as \<open>list(maxCount)\<close>, returning a finite sequence of
  device handles of length at most \<open>maxCount\<close>: the first \<open>n\<close> devices of the platform.
\<close>

definition getDeviceIDs :: "clwrap \<Rightarrow> bool \<Rightarrow> nat \<Rightarrow> cl_device_id list" where
  "getDeviceIDs env onlyGPU n = take n (allDevices env)"

section \<open>The configuration\<close>

definition DEFAULT_LOGSTEP :: int32 where
  "DEFAULT_LOGSTEP = 20000"

record Args =
  clArgs :: string
  uid :: string
  logStep :: int32
  saveStep :: int32
  checkStep :: int32
  device :: int32
  timeKernels :: bool
  selfTest :: bool
  useLegacy :: bool
  safe :: bool

text \<open>The constructor \<open>Args::Args()\<close>; \<open>uid\<close> is a default-constructed \<open>std::string\<close>.\<close>

definition Args_init :: Args where
  "Args_init =
     \<lparr> clArgs = [], uid = [], logStep = DEFAULT_LOGSTEP, saveStep = 0, checkStep = 0,
       device = - 1, timeKernels = False, selfTest = False, useLegacy = False,
       safe = False \<rparr>"

definition config_fmt :: string where
  \<open>config_fmt = ''Config: -logstep %d -savestep %d -checkstep %d%s\<newline>''\<close>

definition logConfig :: "Args \<Rightarrow> log_call list \<Rightarrow> log_call list" where
  \<open>logConfig a out =
     (let uidStr = (if uid a = [] then [] else '' -uid '' @ uid a);
          clStr = (if clArgs a = [] then [] else '' -cl "'' @ clArgs a @ ''"'');
          tailStr =
            uidStr
            @ (if safe a then '' -supersafe'' else [])
            @ clStr
            @ (if selfTest a then '' -selftest'' else [])
            @ (if timeKernels a then '' -time kernels'' else [])
            @ (if useLegacy a then '' -legacy'' else [])
      in log config_fmt [D (logStep a), D (saveStep a), D (checkStep a), S tailStr] out)\<close>

section \<open>The format strings of the usage text\<close>

definition usage_fmt :: string where
  \<open>usage_fmt =
     ''Command line options:\<newline>''
     @ ''-logstep  <N>     : to log every <N> iterations (default %d)\<newline>''
     @ ''-savestep <N>     : to persist checkpoint every <N> iterations (default 500*logstep == %d)\<newline>''
     @ ''-checkstep <N>    : do Jacobi-symbol check every <N> iterations (default 10*logstep == %d)\<newline>''
     @ ''-uid user/machine : set UID: string to be prepended to the result line\<newline>''
     @ ''-supersafe        : use iterative double-check for reliable results on unreliable hardware\<newline>''
     @ ''-cl "<OpenCL compiler options>", e.g. -cl "-save-temps=tmp/ -O2"\<newline>''
     @ ''-selftest         : perform self tests from 'selftest.txt'\<newline>''
     @ ''                    Self-test mode does not load/save checkpoints, worktodo.txt or results.txt.\<newline>''
     @ ''-time kernels     : to benchmark kernels (logstep must be > 1)\<newline>''
     @ ''-legacy           : use legacy kernels\<newline>\<newline>''
     @ ''-device <N>       : select specific device among:\<newline>''\<close>

definition device_fmt :: string where
  \<open>device_fmt = ''    %d : %s\<newline>''\<close>

definition files_fmt :: string where
  \<open>files_fmt =
     ''\<newline>Files used by gpuOwL:\<newline>''
     @ ''    - worktodo.txt : contains exponents to test "Test=N", one per line\<newline>''
     @ ''    - results.txt : contains LL results\<newline>''
     @ ''    - cN.ll : the most recent checkpoint for exponent <N>; will resume from here\<newline>''
     @ ''    - tN.ll : the previous checkpoint, to be used if cN.ll is lost or corrupted\<newline>''
     @ ''    - bN.ll : a temporary checkpoint that is renamed to cN.ll once successfully written\<newline>''
     @ ''    - sN.iteration.residue.ll : a persistent checkpoint at the given iteration\<newline>''\<close>

definition worktodo_fmt :: string where
  \<open>worktodo_fmt =
     ''\<newline>The lines in worktodo.txt must be of one of these forms:\<newline>''
     @ ''Test=70100200\<newline>''
     @ ''Test=3181F68030F6BF3DCD32B77337D5EF6B,70100200,75,1\<newline>''
     @ ''DoubleCheck=3181F68030F6BF3DCD32B77337D5EF6B,70100200,75,1\<newline>''
     @ ''Test=0,70100200,0,0\<newline>''\<close>

text \<open>
  The loop over the devices in the help branch: one \<open>log\<close> call for each device, with
  its index and its description.
\<close>

fun logDevices :: "clwrap \<Rightarrow> nat \<Rightarrow> cl_device_id list \<Rightarrow> log_call list \<Rightarrow> log_call list" where
  "logDevices env i [] out = out"
| "logDevices env i (d # ds) out =
     logDevices env (Suc i) ds (log device_fmt [D (of_nat i), S (getDeviceInfo env d)] out)"

section \<open>Args::parse\<close>

text \<open>
  How the \<open>for\<close> loop over the arguments ends: with \<open>return false\<close> from inside it, or
  by running past the last argument. Both carry the configuration and the log as they
  are at that moment.
\<close>

datatype loop_exit = ReturnFalse Args "log_call list" | LoopDone Args "log_call list"

text \<open>
  The loop \<open>for (int i = 1; i < argc; ++i)\<close>, on the arguments from \<open>argv[i]\<close> on.
  \<open>i < argc - 1\<close> holds when an argument follows the current one; \<open>argv[++i]\<close> takes it.
\<close>

fun scan :: "clwrap \<Rightarrow> string list \<Rightarrow> Args \<Rightarrow> log_call list \<Rightarrow> loop_exit" where
  "scan env [] a out = LoopDone a out"
| \<open>scan env (arg # rest) a out =
    (if arg = ''-h'' \<or> arg = ''--help'' then
       (let out = log usage_fmt [D (logStep a), D (500 * logStep a), D (10 * logStep a)] out;
            devices = getDeviceIDs env False 16;
            out = logDevices env 0 devices out;
            out = log files_fmt [] out;
            out = log worktodo_fmt [] out
        in ReturnFalse a out)
     else if arg = ''-logstep'' then
       (case rest of
          v # rest' \<Rightarrow>
            (let a = a\<lparr>logStep := atoi v\<rparr>
             in if logStep a \<le>s 0
                then ReturnFalse a (log ''invalid -logstep '%s'\<newline>'' [S v] out)
                else scan env rest' a out)
        | [] \<Rightarrow> ReturnFalse a (log ''-logstep expects <N> argument\<newline>'' [] out))
     else if arg = ''-savestep'' then
       (case rest of
          v # rest' \<Rightarrow>
            (let a = a\<lparr>saveStep := atoi v\<rparr>
             in if saveStep a \<le>s 0
                then ReturnFalse a (log ''invalid -savestep '%s'\<newline>'' [S v] out)
                else scan env rest' a out)
        | [] \<Rightarrow> ReturnFalse a (log ''-savestep expects <N> argument\<newline>'' [] out))
     else if arg = ''-checkstep'' then
       (case rest of
          v # rest' \<Rightarrow>
            (let a = a\<lparr>checkStep := atoi v\<rparr>
             in if checkStep a \<le>s 0
                then ReturnFalse a (log ''invalid -checkstep '%s'\<newline>'' [S v] out)
                else scan env rest' a out)
        | [] \<Rightarrow> ReturnFalse a (log ''-checkstep expects <N> argument\<newline>'' [] out))
     else if arg = ''-uid'' then
       (case rest of
          v # rest' \<Rightarrow> scan env rest' (a\<lparr>uid := v\<rparr>) out
        | [] \<Rightarrow> ReturnFalse a (log ''-uid expects userName/computerName\<newline>'' [] out))
     else if arg = ''-supersafe'' then
       scan env rest (a\<lparr>safe := True\<rparr>) out
     else if arg = ''-cl'' then
       (case rest of
          v # rest' \<Rightarrow> scan env rest' (a\<lparr>clArgs := v\<rparr>) out
        | [] \<Rightarrow>
            ReturnFalse a (log ''-cl expects options string to pass to CL compiler\<newline>'' [] out))
     else if arg = ''-selftest'' then
       scan env rest (a\<lparr>selfTest := True\<rparr>) out
     else if arg = ''-time'' then
       (case rest of
          v # rest' \<Rightarrow>
            if v = ''kernels'' then scan env rest' (a\<lparr>timeKernels := True\<rparr>) out
            else ReturnFalse a (log ''-time expects 'kernels'\<newline>'' [] out)
        | [] \<Rightarrow> ReturnFalse a (log ''-time expects 'kernels'\<newline>'' [] out))
     else if arg = ''-legacy'' then
       scan env rest (a\<lparr>useLegacy := True\<rparr>) out
     else if arg = ''-device'' then
       (case rest of
          v # rest' \<Rightarrow>
            (let a = a\<lparr>device := atoi v\<rparr>;
                 nDevices = getNumberOfDevices env
             in if device a <s 0 \<or> nDevices \<le>s device a
                then ReturnFalse a
                       (log ''invalid -device %d (must be between [0, %d]\<newline>''
                          [D (device a), D (nDevices - 1)] out)
                else scan env rest' a out)
        | [] \<Rightarrow> ReturnFalse a (log ''-device expects <N> argument\<newline>'' [] out))
     else ReturnFalse a (log ''Argument '%s' not understood\<newline>'' [S arg] out))\<close>

definition warn_fmt :: string where
  \<open>warn_fmt = ''Ignoring time kernels because logStep == 1\<newline>''\<close>

text \<open>
  What a call of \<open>parse\<close> does: it returns a boolean, or the \<open>assert\<close> fails and the
  process is aborted.
\<close>

datatype outcome = Returned bool | AssertFailed

text \<open>
  The statements after the loop: the assertion, the derived defaults, the clamping to
  \<open>logStep\<close>, the truncation to multiples of \<open>logStep\<close>, the forcing of \<open>timeKernels\<close>,
  the echo of the configuration, and \<open>return true\<close>. The primed names are the fields
  \<open>saveStep\<close>, \<open>checkStep\<close> and \<open>timeKernels\<close> as the statements assign them; no
  other field is written.
\<close>

definition normalize_args :: "Args \<Rightarrow> log_call list \<Rightarrow> outcome \<times> Args \<times> log_call list" where
  \<open>normalize_args a out =
    (if \<not> 0 <s logStep a then (AssertFailed, a, out)
     else
       let saveStep' = (if saveStep a = 0 then logStep a * 500 else saveStep a);
           checkStep' = (if checkStep a = 0 then logStep a * 10 else checkStep a);
           saveStep' = (if saveStep' <s logStep a then logStep a else saveStep');
           checkStep' = (if checkStep' <s logStep a then logStep a else checkStep');
           saveStep' = saveStep' - c_rem saveStep' (logStep a);
           checkStep' = checkStep' - c_rem checkStep' (logStep a);
           warn = (timeKernels a \<and> logStep a = 1);
           out = (if warn then log warn_fmt [] out else out);
           timeKernels' = (if warn then False else timeKernels a);
           a = a\<lparr>saveStep := saveStep', checkStep := checkStep', timeKernels := timeKernels'\<rparr>;
           out = logConfig a out
       in (Returned True, a, out))\<close>

text \<open>
  \<open>parse(argc, argv)\<close> on a configuration \<open>a\<close>: \<open>argv\<close> is the list of the \<open>argc\<close>
  arguments, the program name first.
\<close>

definition parse :: "clwrap \<Rightarrow> string list \<Rightarrow> Args \<Rightarrow> log_call list
    \<Rightarrow> outcome \<times> Args \<times> log_call list" where
  "parse env argv a out =
     (case scan env (drop 1 argv) a out of
        ReturnFalse a' out' \<Rightarrow> (Returned False, a', out')
      | LoopDone a' out' \<Rightarrow> normalize_args a' out')"

section \<open>Auxiliary definitions\<close>

text \<open>
  The flags after which the loop goes on to the next argument (all but \<open>-h\<close> and
  \<open>--help\<close>), and those of them that take a value.
\<close>

definition continuing_flags :: "string list" where
  "continuing_flags = [''-logstep'', ''-savestep'', ''-checkstep'', ''-uid'', ''-supersafe'',
     ''-cl'', ''-selftest'', ''-time'', ''-legacy'', ''-device'']"

definition value_flags :: "string list" where
  "value_flags = [''-logstep'', ''-savestep'', ''-checkstep'', ''-uid'', ''-cl'', ''-device'']"

text \<open>
  What the statements \<open>if (s < logStep) { s = logStep; }\<close> and \<open>s -= s % logStep\<close>
  do together to \<open>saveStep\<close> and to \<open>checkStep\<close>.
\<close>

definition clamp_trunc :: "int32 \<Rightarrow> int32 \<Rightarrow> int32" where
  "clamp_trunc s l = (let s = (if s <s l then l else s) in s - c_rem s l)"

text \<open>The configuration that the statements after the loop leave, as one update of \<open>a\<close>.\<close>

definition normalized :: "Args \<Rightarrow> Args" where
  "normalized a =
     a\<lparr> saveStep :=
          clamp_trunc (if saveStep a = 0 then logStep a * 500 else saveStep a) (logStep a),
        checkStep :=
          clamp_trunc (if checkStep a = 0 then logStep a * 10 else checkStep a) (logStep a),
        timeKernels := (timeKernels a \<and> logStep a \<noteq> 1) \<rparr>"

text \<open>
  What the diagnostic of a value flag with no value says the flag expects, after the name
  of the flag and the word \<open>expects\<close>.
\<close>

definition expected_argument :: "string \<Rightarrow> string" where
  \<open>expected_argument f =
     (if f = ''-uid'' then ''userName/computerName\<newline>''
      else if f = ''-cl'' then ''options string to pass to CL compiler\<newline>''
      else ''<N> argument\<newline>'')\<close>

text \<open>The calls of \<open>log\<close> that the loop over the devices makes, for the devices \<open>ds\<close>.\<close>

definition device_lines :: "clwrap \<Rightarrow> cl_device_id list \<Rightarrow> log_call list" where
  "device_lines env ds =
     map (\<lambda>(i, d). (device_fmt, [D (of_nat i), S (getDeviceInfo env d)])) (enumerate 0 ds)"

text \<open>Two platforms to run the parser on: one with two devices, one with seventeen.\<close>

definition two_devices :: clwrap where
  "two_devices =
     \<lparr> getNumberOfDevices = 2, allDevices = [0, 1], getDeviceInfo = (\<lambda>d. ''gpu'') \<rparr>"

definition seventeen_devices :: clwrap where
  "seventeen_devices =
     \<lparr> getNumberOfDevices = 17, allDevices = [0 ..< 17], getDeviceInfo = (\<lambda>d. ''gpu'') \<rparr>"

section \<open>atoi on a string with no digit\<close>

lemma digits_val_no_digit:
  assumes "\<forall>c\<in>set s. \<not> isdigit c"
  shows "digits_val acc s = acc"
  using assms by (cases s) simp_all

lemma set_skip_sign:
  "set (case xs of [] \<Rightarrow> [] | c # r \<Rightarrow> if P c then r else xs) \<subseteq> set xs"
  by (cases xs) auto

lemma atoi_no_digit:
  assumes "\<forall>c\<in>set s. \<not> isdigit c"
  shows "atoi s = 0"
proof -
  let ?s1 = "dropWhile isspace s"
  let ?s2 = "case ?s1 of [] \<Rightarrow> [] | c # r \<Rightarrow> if c = CHR ''-'' \<or> c = CHR ''+'' then r else ?s1"
  have "set ?s1 \<subseteq> set s" by (auto dest: set_dropWhileD)
  moreover have "set ?s2 \<subseteq> set ?s1" by (rule set_skip_sign)
  ultimately have "\<forall>c\<in>set ?s2. \<not> isdigit c" using assms by blast
  then have "digits_val 0 ?s2 = 0" by (rule digits_val_no_digit)
  then show ?thesis by (simp add: atoi_def strtol10_def Let_def)
qed

section \<open>Arithmetic on 32-bit integers\<close>

lemma sint_int32:
  "- (2 ^ 31) \<le> x \<Longrightarrow> x < 2 ^ 31 \<Longrightarrow> sint (word_of_int x :: int32) = x"
  by (simp add: int_word_sint)

lemma sint_int32_range: "- (2 ^ 31) \<le> sint (w :: int32) \<and> sint w < 2 ^ 31"
  using sint_ge [of w] sint_lt [of w] by simp

lemma sint_c_rem:
  assumes "0 < sint b" "0 \<le> sint a"
  shows "sint (c_rem a b) = sint a mod sint b"
proof -
  have eq: "sint a smod sint b = sint a mod sint b"
    using assms by (simp add: smod_int_alt_def sgn_if)
  have lo: "0 \<le> sint a mod sint b" using assms by simp
  have "sint a mod sint b < sint b" using assms by simp
  then have hi: "sint a mod sint b < 2 ^ 31" using sint_int32_range [of b] by linarith
  show ?thesis
    unfolding c_rem_def eq using lo hi by (simp add: sint_int32)
qed

lemma sint_diff_int32:
  fixes a b :: int32
  assumes "- (2 ^ 31) \<le> sint a - sint b" "sint a - sint b < 2 ^ 31"
  shows "sint (a - b) = sint a - sint b"
proof -
  have "a - b = word_of_int (sint a - sint b)" by simp
  then show ?thesis using assms sint_int32 by metis
qed

lemma sint_mult_int32:
  fixes a b :: int32
  assumes "- (2 ^ 31) \<le> sint a * sint b" "sint a * sint b < 2 ^ 31"
  shows "sint (a * b) = sint a * sint b"
proof -
  have "a * b = word_of_int (sint a * sint b)" by simp
  then show ?thesis using assms sint_int32 by metis
qed

lemma sint_truncate:
  assumes "0 < sint b" "sint b \<le> sint a"
  shows "sint (a - c_rem a b) = sint a - sint a mod sint b"
proof -
  have r: "sint (c_rem a b) = sint a mod sint b" using assms by (simp add: sint_c_rem)
  have "0 \<le> sint a mod sint b" "sint a mod sint b \<le> sint a"
    using assms by (simp_all add: zmod_le_nonneg_dividend)
  then show ?thesis
    using sint_int32_range [of a] by (simp add: sint_diff_int32 r)
qed

lemma sint_clamp_trunc:
  assumes "0 < sint l"
  shows "sint (clamp_trunc s l) = max (sint s) (sint l) - max (sint s) (sint l) mod sint l"
  using assms by (auto simp: clamp_trunc_def Let_def word_sless_alt sint_truncate max_def)

lemma truncate_ge:
  fixes m l :: int
  assumes "0 < l" "l \<le> m"
  shows "l \<le> m - m mod l"
proof -
  have "0 < m div l" using assms by (simp add: pos_imp_zdiv_pos_iff)
  then have "l * 1 \<le> l * (m div l)" using assms by (intro mult_left_mono) simp_all
  then show ?thesis by (simp add: minus_mod_eq_mult_div)
qed

lemma clamp_trunc_ge:
  assumes "0 < sint l"
  shows "sint l \<le> sint (clamp_trunc s l)"
  using assms truncate_ge [of "sint l" "max (sint s) (sint l)"]
  by (simp add: sint_clamp_trunc)

lemma clamp_trunc_multiple:
  assumes "0 < sint l"
  shows "sint (clamp_trunc s l) mod sint l = 0"
  using assms by (simp add: sint_clamp_trunc)

lemma clamp_trunc_fixed:
  assumes "0 < sint l" "sint l \<le> sint s" "sint s mod sint l = 0"
  shows "clamp_trunc s l = s"
proof -
  have "sint (clamp_trunc s l) = sint s"
    using assms by (simp add: sint_clamp_trunc max_def)
  then show ?thesis by (rule signed_word_eqI)
qed

lemma clamp_trunc_idem:
  assumes "0 < sint l"
  shows "clamp_trunc (clamp_trunc s l) l = clamp_trunc s l"
  using assms by (intro clamp_trunc_fixed clamp_trunc_ge clamp_trunc_multiple)

lemma clamp_trunc_nonzero:
  assumes "0 < sint l"
  shows "clamp_trunc s l \<noteq> 0"
  using clamp_trunc_ge [OF assms, of s] assms by auto

section \<open>The statements after the loop\<close>

lemma normalize_eq:
  assumes "0 <s logStep a"
  shows "normalize_args a out =
    (Returned True, normalized a,
     logConfig (normalized a) (if timeKernels a \<and> logStep a = 1 then log warn_fmt [] out else out))"
proof -
  have tk: "(if timeKernels a \<and> logStep a = 1 then False else timeKernels a)
      = (timeKernels a \<and> logStep a \<noteq> 1)"
    by auto
  show ?thesis
    using assms unfolding normalize_args_def normalized_def clamp_trunc_def Let_def tk by simp
qed

lemma normalize_assert:
  assumes "\<not> 0 <s logStep a"
  shows "normalize_args a out = (AssertFailed, a, out)"
  using assms by (simp add: normalize_args_def)

lemma normalize_Returned:
  assumes "normalize_args a out = (Returned b, a', out')"
  shows "0 <s logStep a \<and> b \<and> a' = normalized a"
  using assms by (cases "0 <s logStep a") (simp_all add: normalize_eq normalize_assert)

lemma normalized_idem:
  assumes "0 <s logStep a"
  shows "normalized (normalized a) = normalized a"
proof -
  have pos: "0 < sint (logStep a)" using assms by (simp add: word_sless_alt)
  show ?thesis
    by (simp add: normalized_def clamp_trunc_idem [OF pos] clamp_trunc_nonzero [OF pos])
qed

section \<open>The loop over the arguments\<close>

lemma scan_other:
  assumes "arg \<notin> set continuing_flags"
  shows "\<exists>b out'. scan env (arg # rest) a out = ReturnFalse b out'"
proof (cases "arg = ''-h'' \<or> arg = ''--help''")
  case True
  then show ?thesis by (simp add: Let_def)
next
  case False
  with assms show ?thesis by (simp add: continuing_flags_def)
qed

lemma scan_Cons_LoopDone:
  assumes "scan env (arg # rest) a out = LoopDone a' out'"
  shows "arg \<in> set continuing_flags"
  using assms scan_other [of arg env rest a out] by auto

lemma scan_logstep_LoopDone:
  assumes "scan env (''-logstep'' # rest) a out = LoopDone a' out'"
  obtains v rest' where "rest = v # rest'" "0 <s atoi v"
    "scan env rest' (a\<lparr>logStep := atoi v\<rparr>) out = LoopDone a' out'"
  using assms by (cases rest) (auto simp: Let_def split: if_splits)

lemma scan_savestep_LoopDone:
  assumes "scan env (''-savestep'' # rest) a out = LoopDone a' out'"
  obtains v rest' where "rest = v # rest'" "0 <s atoi v"
    "scan env rest' (a\<lparr>saveStep := atoi v\<rparr>) out = LoopDone a' out'"
  using assms by (cases rest) (auto simp: Let_def split: if_splits)

lemma scan_checkstep_LoopDone:
  assumes "scan env (''-checkstep'' # rest) a out = LoopDone a' out'"
  obtains v rest' where "rest = v # rest'" "0 <s atoi v"
    "scan env rest' (a\<lparr>checkStep := atoi v\<rparr>) out = LoopDone a' out'"
  using assms by (cases rest) (auto simp: Let_def split: if_splits)

lemma scan_uid_LoopDone:
  assumes "scan env (''-uid'' # rest) a out = LoopDone a' out'"
  obtains v rest' where "rest = v # rest'"
    "scan env rest' (a\<lparr>uid := v\<rparr>) out = LoopDone a' out'"
  using assms by (cases rest) auto

lemma scan_cl_LoopDone:
  assumes "scan env (''-cl'' # rest) a out = LoopDone a' out'"
  obtains v rest' where "rest = v # rest'"
    "scan env rest' (a\<lparr>clArgs := v\<rparr>) out = LoopDone a' out'"
  using assms by (cases rest) auto

lemma scan_time_LoopDone:
  assumes "scan env (''-time'' # rest) a out = LoopDone a' out'"
  obtains rest' where "rest = ''kernels'' # rest'"
    "scan env rest' (a\<lparr>timeKernels := True\<rparr>) out = LoopDone a' out'"
  using assms by (cases rest) (auto split: if_splits)

lemma scan_device_LoopDone:
  assumes "scan env (''-device'' # rest) a out = LoopDone a' out'"
  obtains v rest' where "rest = v # rest'" "0 \<le>s atoi v" "atoi v <s getNumberOfDevices env"
    "scan env rest' (a\<lparr>device := atoi v\<rparr>) out = LoopDone a' out'"
  using assms by (cases rest) (auto simp: Let_def split: if_splits)

lemma scan_LoopDone_induct [consumes 1, case_names empty logstep savestep checkstep uid
    supersafe cl selftest time legacy device]:
  assumes run: "scan env xs a out = LoopDone a' out'"
    and base: "out' = out \<Longrightarrow> P [] a'"
    and logstep: "\<And>v rest a. 0 <s atoi v \<Longrightarrow> P rest (a\<lparr>logStep := atoi v\<rparr>)
        \<Longrightarrow> P (''-logstep'' # v # rest) a"
    and savestep: "\<And>v rest a. 0 <s atoi v \<Longrightarrow> P rest (a\<lparr>saveStep := atoi v\<rparr>)
        \<Longrightarrow> P (''-savestep'' # v # rest) a"
    and checkstep: "\<And>v rest a. 0 <s atoi v \<Longrightarrow> P rest (a\<lparr>checkStep := atoi v\<rparr>)
        \<Longrightarrow> P (''-checkstep'' # v # rest) a"
    and uid: "\<And>v rest a. P rest (a\<lparr>uid := v\<rparr>) \<Longrightarrow> P (''-uid'' # v # rest) a"
    and supersafe: "\<And>rest a. P rest (a\<lparr>safe := True\<rparr>) \<Longrightarrow> P (''-supersafe'' # rest) a"
    and cl: "\<And>v rest a. P rest (a\<lparr>clArgs := v\<rparr>) \<Longrightarrow> P (''-cl'' # v # rest) a"
    and selftest: "\<And>rest a. P rest (a\<lparr>selfTest := True\<rparr>) \<Longrightarrow> P (''-selftest'' # rest) a"
    and time: "\<And>rest a. P rest (a\<lparr>timeKernels := True\<rparr>)
        \<Longrightarrow> P (''-time'' # ''kernels'' # rest) a"
    and legacy: "\<And>rest a. P rest (a\<lparr>useLegacy := True\<rparr>) \<Longrightarrow> P (''-legacy'' # rest) a"
    and device: "\<And>v rest a. 0 \<le>s atoi v \<Longrightarrow> atoi v <s getNumberOfDevices env
        \<Longrightarrow> P rest (a\<lparr>device := atoi v\<rparr>) \<Longrightarrow> P (''-device'' # v # rest) a"
  shows "P xs a"
  using run
proof (induction xs arbitrary: a rule: length_induct)
  case (1 xs)
  have IH: "P ys b" if "length ys < length xs" "scan env ys b out = LoopDone a' out'" for ys b
    using "1.IH" that by blast
  note run = "1.prems"
  show ?case
  proof (cases xs)
    case Nil
    with run base show ?thesis by simp
  next
    case (Cons arg rest)
    with run have "arg \<in> set continuing_flags"
      using scan_Cons_LoopDone by blast
    then have "arg = ''-logstep'' \<or> arg = ''-savestep'' \<or> arg = ''-checkstep''
      \<or> arg = ''-uid'' \<or> arg = ''-supersafe'' \<or> arg = ''-cl'' \<or> arg = ''-selftest''
      \<or> arg = ''-time'' \<or> arg = ''-legacy'' \<or> arg = ''-device''"
      by (simp only: continuing_flags_def set_simps insert_iff empty_iff simp_thms)
    then show ?thesis
    proof (elim disjE)
      assume f: "arg = ''-logstep''"
      with run Cons obtain v rest' where r: "rest = v # rest'" "0 <s atoi v"
        "scan env rest' (a\<lparr>logStep := atoi v\<rparr>) out = LoopDone a' out'"
        using scan_logstep_LoopDone by blast
      with Cons f show ?thesis using logstep [OF r(2) IH [OF _ r(3)]] by simp
    next
      assume f: "arg = ''-savestep''"
      with run Cons obtain v rest' where r: "rest = v # rest'" "0 <s atoi v"
        "scan env rest' (a\<lparr>saveStep := atoi v\<rparr>) out = LoopDone a' out'"
        using scan_savestep_LoopDone by blast
      with Cons f show ?thesis using savestep [OF r(2) IH [OF _ r(3)]] by simp
    next
      assume f: "arg = ''-checkstep''"
      with run Cons obtain v rest' where r: "rest = v # rest'" "0 <s atoi v"
        "scan env rest' (a\<lparr>checkStep := atoi v\<rparr>) out = LoopDone a' out'"
        using scan_checkstep_LoopDone by blast
      with Cons f show ?thesis using checkstep [OF r(2) IH [OF _ r(3)]] by simp
    next
      assume f: "arg = ''-uid''"
      with run Cons obtain v rest' where r: "rest = v # rest'"
        "scan env rest' (a\<lparr>uid := v\<rparr>) out = LoopDone a' out'"
        using scan_uid_LoopDone by blast
      with Cons f show ?thesis using uid [OF IH [OF _ r(2)]] by simp
    next
      assume f: "arg = ''-supersafe''"
      with run Cons have r: "scan env rest (a\<lparr>safe := True\<rparr>) out = LoopDone a' out'"
        by simp
      with Cons f show ?thesis using supersafe [OF IH [OF _ r]] by simp
    next
      assume f: "arg = ''-cl''"
      with run Cons obtain v rest' where r: "rest = v # rest'"
        "scan env rest' (a\<lparr>clArgs := v\<rparr>) out = LoopDone a' out'"
        using scan_cl_LoopDone by blast
      with Cons f show ?thesis using cl [OF IH [OF _ r(2)]] by simp
    next
      assume f: "arg = ''-selftest''"
      with run Cons have r: "scan env rest (a\<lparr>selfTest := True\<rparr>) out = LoopDone a' out'"
        by simp
      with Cons f show ?thesis using selftest [OF IH [OF _ r]] by simp
    next
      assume f: "arg = ''-time''"
      with run Cons obtain rest' where r: "rest = ''kernels'' # rest'"
        "scan env rest' (a\<lparr>timeKernels := True\<rparr>) out = LoopDone a' out'"
        using scan_time_LoopDone by blast
      with Cons f show ?thesis using time [OF IH [OF _ r(2)]] by simp
    next
      assume f: "arg = ''-legacy''"
      with run Cons have r: "scan env rest (a\<lparr>useLegacy := True\<rparr>) out = LoopDone a' out'"
        by simp
      with Cons f show ?thesis using legacy [OF IH [OF _ r]] by simp
    next
      assume f: "arg = ''-device''"
      with run Cons obtain v rest' where r: "rest = v # rest'" "0 \<le>s atoi v"
        "atoi v <s getNumberOfDevices env"
        "scan env rest' (a\<lparr>device := atoi v\<rparr>) out = LoopDone a' out'"
        using scan_device_LoopDone by blast
      with Cons f show ?thesis using device [OF r(2) r(3) IH [OF _ r(4)]] by simp
    qed
  qed
qed


lemma scan_LoopDone_log:
  "scan env xs a out = LoopDone a' out' \<Longrightarrow> out' = out"
  by (induction rule: scan_LoopDone_induct) simp_all

lemma scan_append:
  assumes "scan env xs a out = LoopDone a' out'"
  shows "scan env (xs @ ys) a out = scan env ys a' out'"
  using assms
proof (induction rule: scan_LoopDone_induct)
  case empty
  then show ?case by simp
qed (simp_all add: Let_def word_sless_alt word_sle_eq)

lemma scan_logStep_pos:
  assumes "scan env xs a out = LoopDone a' out'" "0 <s logStep a"
  shows "0 <s logStep a'"
  using assms by (induction rule: scan_LoopDone_induct) simp_all

lemma scan_device_range:
  assumes "scan env xs a out = LoopDone a' out'"
    and "device a = - 1 \<or> (0 \<le>s device a \<and> device a <s getNumberOfDevices env)"
  shows "device a' = - 1 \<or> (0 \<le>s device a' \<and> device a' <s getNumberOfDevices env)"
  using assms by (induction rule: scan_LoopDone_induct) simp_all

lemma scan_keeps_logStep:
  assumes "scan env xs a out = LoopDone a' out'" "''-logstep'' \<notin> set xs"
  shows "logStep a' = logStep a"
  using assms by (induction rule: scan_LoopDone_induct) simp_all

lemma scan_keeps_saveStep:
  assumes "scan env xs a out = LoopDone a' out'" "''-savestep'' \<notin> set xs"
  shows "saveStep a' = saveStep a"
  using assms by (induction rule: scan_LoopDone_induct) simp_all

lemma scan_keeps_timeKernels:
  assumes "scan env xs a out = LoopDone a' out'" "timeKernels a"
  shows "timeKernels a'"
  using assms by (induction rule: scan_LoopDone_induct) simp_all

lemma scan_keeps_checkStep:
  assumes "scan env xs a out = LoopDone a' out'" "''-checkstep'' \<notin> set xs"
  shows "checkStep a' = checkStep a"
  using assms by (induction rule: scan_LoopDone_induct) simp_all

lemma scan_keeps_uid:
  assumes "scan env xs a out = LoopDone a' out'" "''-uid'' \<notin> set xs"
  shows "uid a' = uid a"
  using assms by (induction rule: scan_LoopDone_induct) simp_all

lemma scan_keeps_clArgs:
  assumes "scan env xs a out = LoopDone a' out'" "''-cl'' \<notin> set xs"
  shows "clArgs a' = clArgs a"
  using assms by (induction rule: scan_LoopDone_induct) simp_all

lemma scan_keeps_device:
  assumes "scan env xs a out = LoopDone a' out'" "''-device'' \<notin> set xs"
  shows "device a' = device a"
  using assms by (induction rule: scan_LoopDone_induct) simp_all

text \<open>The scan of a flag that follows a prefix of complete flags.\<close>

lemma scan_after_prefix:
  assumes "scan env pre a0 out = LoopDone a1 out1"
  shows "scan env (pre @ xs) a0 out = scan env xs a1 out"
  using scan_append [OF assms] scan_LoopDone_log [OF assms] by simp

lemma scan_last_logstep:
  assumes "scan env pre a0 out = LoopDone b out0"
    and "scan env (pre @ ''-logstep'' # v # post) a0 out = LoopDone a1 out1"
    and "''-logstep'' \<notin> set post"
  shows "0 <s atoi v \<and> logStep a1 = atoi v
    \<and> scan env post (b\<lparr>logStep := atoi v\<rparr>) out = LoopDone a1 out1"
proof -
  from assms(2) have "scan env (''-logstep'' # v # post) b out = LoopDone a1 out1"
    by (simp only: scan_after_prefix [OF assms(1)])
  then have pos: "0 <s atoi v"
    and rest: "scan env post (b\<lparr>logStep := atoi v\<rparr>) out = LoopDone a1 out1"
    by (auto elim!: scan_logstep_LoopDone simp del: scan.simps)
  from scan_keeps_logStep [OF rest assms(3)] pos rest show ?thesis by simp
qed

lemma scan_last_savestep:
  assumes "scan env pre a0 out = LoopDone b out0"
    and "scan env (pre @ ''-savestep'' # v # post) a0 out = LoopDone a1 out1"
    and "''-savestep'' \<notin> set post"
  shows "0 <s atoi v \<and> saveStep a1 = atoi v
    \<and> scan env post (b\<lparr>saveStep := atoi v\<rparr>) out = LoopDone a1 out1"
proof -
  from assms(2) have "scan env (''-savestep'' # v # post) b out = LoopDone a1 out1"
    by (simp only: scan_after_prefix [OF assms(1)])
  then have pos: "0 <s atoi v"
    and rest: "scan env post (b\<lparr>saveStep := atoi v\<rparr>) out = LoopDone a1 out1"
    by (auto elim!: scan_savestep_LoopDone simp del: scan.simps)
  from scan_keeps_saveStep [OF rest assms(3)] pos rest show ?thesis by simp
qed

lemma scan_last_checkstep:
  assumes "scan env pre a0 out = LoopDone b out0"
    and "scan env (pre @ ''-checkstep'' # v # post) a0 out = LoopDone a1 out1"
    and "''-checkstep'' \<notin> set post"
  shows "0 <s atoi v \<and> checkStep a1 = atoi v
    \<and> scan env post (b\<lparr>checkStep := atoi v\<rparr>) out = LoopDone a1 out1"
proof -
  from assms(2) have "scan env (''-checkstep'' # v # post) b out = LoopDone a1 out1"
    by (simp only: scan_after_prefix [OF assms(1)])
  then have pos: "0 <s atoi v"
    and rest: "scan env post (b\<lparr>checkStep := atoi v\<rparr>) out = LoopDone a1 out1"
    by (auto elim!: scan_checkstep_LoopDone simp del: scan.simps)
  from scan_keeps_checkStep [OF rest assms(3)] pos rest show ?thesis by simp
qed

lemma scan_last_uid:
  assumes "scan env pre a0 out = LoopDone b out0"
    and "scan env (pre @ ''-uid'' # v # post) a0 out = LoopDone a1 out1"
    and "''-uid'' \<notin> set post"
  shows "uid a1 = v"
proof -
  from assms(2) have "scan env (''-uid'' # v # post) b out = LoopDone a1 out1"
    by (simp only: scan_after_prefix [OF assms(1)])
  then have rest: "scan env post (b\<lparr>uid := v\<rparr>) out = LoopDone a1 out1"
    by (auto elim!: scan_uid_LoopDone simp del: scan.simps)
  from scan_keeps_uid [OF rest assms(3)] show ?thesis by simp
qed

lemma scan_last_cl:
  assumes "scan env pre a0 out = LoopDone b out0"
    and "scan env (pre @ ''-cl'' # v # post) a0 out = LoopDone a1 out1"
    and "''-cl'' \<notin> set post"
  shows "clArgs a1 = v"
proof -
  from assms(2) have "scan env (''-cl'' # v # post) b out = LoopDone a1 out1"
    by (simp only: scan_after_prefix [OF assms(1)])
  then have rest: "scan env post (b\<lparr>clArgs := v\<rparr>) out = LoopDone a1 out1"
    by (auto elim!: scan_cl_LoopDone simp del: scan.simps)
  from scan_keeps_clArgs [OF rest assms(3)] show ?thesis by simp
qed

lemma scan_last_device:
  assumes "scan env pre a0 out = LoopDone b out0"
    and "scan env (pre @ ''-device'' # v # post) a0 out = LoopDone a1 out1"
    and "''-device'' \<notin> set post"
  shows "device a1 = atoi v \<and> 0 \<le>s atoi v \<and> atoi v <s getNumberOfDevices env"
proof -
  from assms(2) have "scan env (''-device'' # v # post) b out = LoopDone a1 out1"
    by (simp only: scan_after_prefix [OF assms(1)])
  then have ok: "0 \<le>s atoi v" "atoi v <s getNumberOfDevices env"
    and rest: "scan env post (b\<lparr>device := atoi v\<rparr>) out = LoopDone a1 out1"
    by (auto elim!: scan_device_LoopDone simp del: scan.simps)
  from scan_keeps_device [OF rest assms(3)] ok show ?thesis by simp
qed

lemma scan_missing_value:
  assumes "f \<in> set value_flags"
  shows "scan env [f] a out = ReturnFalse a (out @ [(f @ '' expects '' @ expected_argument f, [])])"
proof -
  from assms have "f = ''-logstep'' \<or> f = ''-savestep'' \<or> f = ''-checkstep'' \<or> f = ''-uid''
      \<or> f = ''-cl'' \<or> f = ''-device''"
    by (simp only: value_flags_def set_simps insert_iff empty_iff simp_thms)
  then show ?thesis
    by (elim disjE) (simp_all add: log_def expected_argument_def)
qed

lemma logDevices_eq:
  "logDevices env i ds out =
     out @ map (\<lambda>(j, d). (device_fmt, [D (of_nat j), S (getDeviceInfo env d)])) (enumerate i ds)"
  by (induction ds arbitrary: i out) (simp_all add: log_def)

lemma scan_help:
  assumes "h = ''-h'' \<or> h = ''--help''"
  shows "scan env (h # post) a out =
    ReturnFalse a
      (out @ [(usage_fmt, [D (logStep a), D (500 * logStep a), D (10 * logStep a)])]
         @ device_lines env (take 16 (allDevices env))
         @ [(files_fmt, []), (worktodo_fmt, [])])"
  using assms
  by (elim disjE) (simp_all add: Let_def log_def logDevices_eq getDeviceIDs_def device_lines_def)

lemma logConfig_append: "\<exists>args. logConfig a out = out @ [(config_fmt, args)]"
  by (simp add: logConfig_def log_def Let_def)

section \<open>The whole of parse\<close>

lemma parse_True:
  assumes "parse env argv a0 out = (Returned True, a, out')"
  obtains a1 where "scan env (drop 1 argv) a0 out = LoopDone a1 out" "0 <s logStep a1"
    "a = normalized a1"
    "out' = logConfig a (if timeKernels a1 \<and> logStep a1 = 1 then log warn_fmt [] out else out)"
proof (cases "scan env (drop 1 argv) a0 out")
  case (ReturnFalse b o1)
  with assms show ?thesis by (simp add: parse_def)
next
  case (LoopDone a1 o1)
  then have o1: "o1 = out" by (rule scan_LoopDone_log)
  from assms LoopDone have n: "normalize_args a1 out = (Returned True, a, out')"
    by (simp add: parse_def o1)
  then have pos: "0 <s logStep a1" and a: "a = normalized a1"
    using normalize_Returned by blast+
  from n have "out' = logConfig a (if timeKernels a1 \<and> logStep a1 = 1 then log warn_fmt [] out else out)"
    by (simp add: normalize_eq [OF pos] a)
  with LoopDone o1 pos a show ?thesis using that by blast
qed

lemma parse_LoopDone:
  assumes "scan env (drop 1 argv) a0 out = LoopDone a1 out1" "0 <s logStep a1"
  shows "parse env argv a0 out =
    (Returned True, normalized a1,
     logConfig (normalized a1)
       (if timeKernels a1 \<and> logStep a1 = 1 then log warn_fmt [] out else out))"
  using assms scan_LoopDone_log [OF assms(1)] by (simp add: parse_def normalize_eq)

lemma Args_init_logStep_pos: "0 <s logStep Args_init"
  by (simp add: Args_init_def DEFAULT_LOGSTEP_def word_sless_alt)

lemma sint_eq_1_iff: "sint (w :: int32) = 1 \<longleftrightarrow> w = 1"
  using signed_word_eqI [of w 1] by auto

lemma sint_eq_m1_iff: "sint (w :: int32) = - 1 \<longleftrightarrow> w = - 1"
  using signed_word_eqI [of w "- 1"] by auto

lemma scan_invalid_step:
  assumes "f \<in> set [''-logstep'', ''-savestep'', ''-checkstep'']" and "atoi v \<le>s 0"
  shows "\<exists>b out'. scan env (f # v # post) a out = ReturnFalse b out'"
proof -
  from assms(1) have "f = ''-logstep'' \<or> f = ''-savestep'' \<or> f = ''-checkstep''"
    by (simp only: set_simps insert_iff empty_iff simp_thms)
  then show ?thesis using assms(2) by (elim disjE) (simp_all add: Let_def)
qed

lemma scan_invalid_device:
  assumes "atoi v <s 0 \<or> getNumberOfDevices env \<le>s atoi v"
  shows "\<exists>b out'. scan env (''-device'' # v # post) a out = ReturnFalse b out'"
  using assms by (auto simp: Let_def)

lemma parse_ReturnFalse:
  assumes "scan env (drop 1 argv) a0 out = ReturnFalse b out'"
  shows "fst (parse env argv a0 out) = Returned False"
  using assms by (simp add: parse_def)

section \<open>The default run\<close>

text \<open>
  Claim C4. With the program name as the only argument, \<open>parse\<close> returns true on a
  freshly constructed configuration, and leaves \<open>logStep = 20000\<close>,
  \<open>saveStep = 10000000\<close>, \<open>checkStep = 200000\<close>, \<open>device = -1\<close> and the four boolean
  flags false. The only output is the echo of the configuration.
\<close>

theorem C4_default_run:
  "parse env [prog] Args_init out =
    (Returned True,
     \<lparr> clArgs = [], uid = [], logStep = 20000, saveStep = 10000000, checkStep = 200000,
       device = - 1, timeKernels = False, selfTest = False, useLegacy = False, safe = False \<rparr>,
     out @ [(config_fmt, [D 20000, D 10000000, D 200000, S []])])"
  by (simp add: parse_def normalize_args_def Args_init_def DEFAULT_LOGSTEP_def c_rem_def
      logConfig_def log_def Let_def word_sless_alt)

section \<open>The invariants of a successful parse\<close>

text \<open>
  Claim C1. Whenever \<open>parse\<close>, run on a freshly constructed configuration, returns
  true, the configuration it leaves satisfies: \<open>logStep > 0\<close>; \<open>saveStep \<ge> logStep\<close> and
  \<open>saveStep mod logStep = 0\<close>; \<open>checkStep \<ge> logStep\<close> and \<open>checkStep mod logStep = 0\<close>;
  \<open>timeKernels\<close> implies \<open>logStep > 1\<close>; and \<open>device\<close> is \<open>-1\<close> or lies between 0 and the
  number of devices (excluded). The fields are read as signed 32-bit integers.
\<close>

theorem C1_success_invariants:
  assumes "parse env argv Args_init out = (Returned True, a, out')"
  shows "0 < sint (logStep a)
    \<and> sint (logStep a) \<le> sint (saveStep a) \<and> sint (saveStep a) mod sint (logStep a) = 0
    \<and> sint (logStep a) \<le> sint (checkStep a) \<and> sint (checkStep a) mod sint (logStep a) = 0
    \<and> (timeKernels a \<longrightarrow> 1 < sint (logStep a))
    \<and> (sint (device a) = - 1
        \<or> (0 \<le> sint (device a) \<and> sint (device a) < sint (getNumberOfDevices env)))"
proof -
  from assms obtain a1 where run: "scan env (drop 1 argv) Args_init out = LoopDone a1 out"
    and a: "a = normalized a1"
    by (rule parse_True)
  have "0 <s logStep a1"
    using run Args_init_logStep_pos by (rule scan_logStep_pos)
  then have pos: "0 < sint (logStep a1)" by (simp add: word_sless_alt)
  have l: "logStep a = logStep a1" by (simp add: a normalized_def)
  have s: "sint (logStep a) \<le> sint (saveStep a) \<and> sint (saveStep a) mod sint (logStep a) = 0"
    using clamp_trunc_ge [OF pos] clamp_trunc_multiple [OF pos] by (simp add: a normalized_def)
  have c: "sint (logStep a) \<le> sint (checkStep a) \<and> sint (checkStep a) mod sint (logStep a) = 0"
    using clamp_trunc_ge [OF pos] clamp_trunc_multiple [OF pos] by (simp add: a normalized_def)
  have t: "timeKernels a \<longrightarrow> 1 < sint (logStep a)"
    using pos sint_eq_1_iff [of "logStep a1"] by (auto simp: a normalized_def)
  have "device Args_init = - 1" by (simp add: Args_init_def)
  then have "device a1 = - 1 \<or> (0 \<le>s device a1 \<and> device a1 <s getNumberOfDevices env)"
    using scan_device_range [OF run] by simp
  then have d: "sint (device a) = - 1
        \<or> (0 \<le> sint (device a) \<and> sint (device a) < sint (getNumberOfDevices env))"
    by (auto simp: a normalized_def word_sless_alt word_sle_eq)
  from pos l s c t d show ?thesis by simp
qed

text \<open>
  The invariants at \<open>-logstep 3 -savestep 10 -time kernels -device 1\<close> on a platform with
  two devices: \<open>saveStep\<close> becomes 9, \<open>checkStep\<close> 30.
\<close>

theorem C1_witness:
  "parse two_devices
     [''gpuowl'', ''-logstep'', ''3'', ''-savestep'', ''10'', ''-time'', ''kernels'',
      ''-device'', ''1'']
     Args_init []
   = (Returned True,
      Args_init\<lparr>logStep := 3, saveStep := 9, checkStep := 30, device := 1,
        timeKernels := True\<rparr>,
      [(config_fmt, [D 3, D 9, D 30, S '' -time kernels''])])
   \<and> 0 < sint (3 :: int32)
   \<and> sint (3 :: int32) \<le> sint (9 :: int32) \<and> sint (9 :: int32) mod sint (3 :: int32) = 0
   \<and> sint (3 :: int32) \<le> sint (30 :: int32) \<and> sint (30 :: int32) mod sint (3 :: int32) = 0
   \<and> 1 < sint (3 :: int32)
   \<and> 0 \<le> sint (1 :: int32) \<and> sint (1 :: int32) < sint (getNumberOfDevices two_devices)"
proof -
  have h: "parse two_devices
     [''gpuowl'', ''-logstep'', ''3'', ''-savestep'', ''10'', ''-time'', ''kernels'',
      ''-device'', ''1'']
     Args_init []
   = (Returned True,
      Args_init\<lparr>logStep := 3, saveStep := 9, checkStep := 30, device := 1,
        timeKernels := True\<rparr>,
      [(config_fmt, [D 3, D 9, D 30, S '' -time kernels''])])"
    by (simp add: parse_def normalize_args_def Args_init_def DEFAULT_LOGSTEP_def c_rem_def
        logConfig_def log_def Let_def word_sless_alt word_sle_eq two_devices_def
        atoi_def strtol10_def isspace_def isdigit_def)
  from C1_success_invariants [OF h] h show ?thesis
    by (simp add: Args_init_def)
qed

section \<open>Idempotence of the statements after the loop\<close>

text \<open>
  Claim C7. The statements after the loop (derived defaults, clamping to \<open>logStep\<close>,
  truncation to multiples of \<open>logStep\<close>, forcing of \<open>timeKernels\<close>) are idempotent: run
  again on the configuration they have produced, they succeed again, with the same
  \<open>logStep\<close>, and change no field; only the echo of the configuration is logged again.
\<close>

theorem C7_normalize_idempotent:
  assumes "normalize_args a out = (Returned True, a', out')"
  shows "logStep a' = logStep a
    \<and> normalize_args a' out' = (Returned True, a', logConfig a' out')"
proof -
  from assms have pos: "0 <s logStep a" and a': "a' = normalized a"
    using normalize_Returned by blast+
  have l: "logStep a' = logStep a" by (simp add: a' normalized_def)
  have "\<not> (timeKernels a' \<and> logStep a' = 1)" by (simp add: a' normalized_def)
  then show ?thesis
    using pos l normalized_idem [OF pos] by (auto simp: normalize_eq a')
qed

text \<open>
  The two runs at \<open>logStep = 3\<close>, \<open>saveStep = 10\<close>, \<open>checkStep = 2\<close>: the first gives
  \<open>saveStep = 9\<close> and \<open>checkStep = 3\<close>, the second leaves them.
\<close>

theorem C7_witness:
  "normalize_args
     (Args_init\<lparr>logStep := 3, saveStep := 10, checkStep := 2, timeKernels := True\<rparr>) []
     = (Returned True,
        Args_init\<lparr>logStep := 3, saveStep := 9, checkStep := 3, timeKernels := True\<rparr>,
        [(config_fmt, [D 3, D 9, D 3, S '' -time kernels''])])
   \<and> normalize_args
       (Args_init\<lparr>logStep := 3, saveStep := 9, checkStep := 3, timeKernels := True\<rparr>)
       [(config_fmt, [D 3, D 9, D 3, S '' -time kernels''])]
     = (Returned True,
        Args_init\<lparr>logStep := 3, saveStep := 9, checkStep := 3, timeKernels := True\<rparr>,
        [(config_fmt, [D 3, D 9, D 3, S '' -time kernels'']),
         (config_fmt, [D 3, D 9, D 3, S '' -time kernels''])])"
proof -
  have h: "normalize_args
     (Args_init\<lparr>logStep := 3, saveStep := 10, checkStep := 2, timeKernels := True\<rparr>) []
     = (Returned True,
        Args_init\<lparr>logStep := 3, saveStep := 9, checkStep := 3, timeKernels := True\<rparr>,
        [(config_fmt, [D 3, D 9, D 3, S '' -time kernels''])])"
    by (simp add: normalize_args_def Args_init_def c_rem_def logConfig_def log_def Let_def
        word_sless_alt)
  from C7_normalize_idempotent [OF h] h show ?thesis
    by (simp add: Args_init_def logConfig_def log_def)
qed

section \<open>A value flag with no value\<close>

text \<open>
  Claim C8. When a value flag (\<open>-logstep\<close>, \<open>-savestep\<close>, \<open>-checkstep\<close>, \<open>-uid\<close>,
  \<open>-cl\<close>, \<open>-device\<close>) is the last argument, and the loop reaches it (the arguments
  before it are complete flags that raise no error), \<open>parse\<close> returns false at once: it
  logs one diagnostic, made of the name of the flag, the word \<open>expects\<close> and what the flag
  expects, and leaves the configuration as the flags before have set it.
\<close>

theorem C8_missing_value:
  assumes "scan env pre a0 out = LoopDone a1 out1" and "f \<in> set value_flags"
  shows "parse env (prog # pre @ [f]) a0 out =
    (Returned False, a1, out @ [(f @ '' expects '' @ expected_argument f, [])])"
proof -
  have "out1 = out" using assms(1) by (rule scan_LoopDone_log)
  then have "scan env (pre @ [f]) a0 out = scan env [f] a1 out"
    using scan_append [OF assms(1)] by (simp del: scan.simps)
  then show ?thesis
    by (simp add: parse_def scan_missing_value [OF assms(2)] del: scan.simps)
qed

text \<open>The claim at \<open>-supersafe -uid\<close>.\<close>

theorem C8_witness:
  "parse two_devices [''gpuowl'', ''-supersafe'', ''-uid''] Args_init [] =
    (Returned False, Args_init\<lparr>safe := True\<rparr>, [(''-uid expects userName/computerName\<newline>'', [])])"
proof -
  have h: "scan two_devices [''-supersafe''] Args_init [] = LoopDone (Args_init\<lparr>safe := True\<rparr>) []"
    by simp
  have m: "''-uid'' \<in> set value_flags" by (simp add: value_flags_def)
  from C8_missing_value [OF h m, of "''gpuowl''"] show ?thesis
    by (simp add: expected_argument_def)
qed

section \<open>The usage text\<close>

text \<open>
  Claim C10. When the loop reaches \<open>-h\<close> or \<open>--help\<close>, \<open>parse\<close> logs the usage text, one
  line for each of the first 16 devices of the platform at most (also when the platform has
  more), then the two texts on the files, and returns false: whatever arguments follow are
  not looked at, as the result does not depend on \<open>post\<close>.
\<close>

theorem C10_help_lists_at_most_16_devices:
  assumes "scan env pre a0 out = LoopDone a1 out1" and "h = ''-h'' \<or> h = ''--help''"
  shows "parse env (prog # pre @ h # post) a0 out =
      (Returned False, a1,
       out @ [(usage_fmt, [D (logStep a1), D (500 * logStep a1), D (10 * logStep a1)])]
         @ device_lines env (take 16 (allDevices env))
         @ [(files_fmt, []), (worktodo_fmt, [])])
    \<and> length (device_lines env (take 16 (allDevices env))) = min 16 (length (allDevices env))"
proof -
  have "out1 = out" using assms(1) by (rule scan_LoopDone_log)
  then have "scan env (pre @ h # post) a0 out = scan env (h # post) a1 out"
    using scan_append [OF assms(1)] by (simp del: scan.simps)
  then show ?thesis
    by (simp add: parse_def scan_help [OF assms(2)] device_lines_def min.commute
        del: scan.simps)
qed

text \<open>The claim on a platform with seventeen devices: sixteen lines.\<close>

theorem C10_witness:
  "length (allDevices seventeen_devices) = 17
   \<and> parse seventeen_devices [''gpuowl'', ''-legacy'', ''--help'', ''-bogus''] Args_init [] =
      (Returned False, Args_init\<lparr>useLegacy := True\<rparr>,
       [(usage_fmt, [D 20000, D 10000000, D 200000])]
         @ device_lines seventeen_devices (take 16 (allDevices seventeen_devices))
         @ [(files_fmt, []), (worktodo_fmt, [])])
   \<and> length (device_lines seventeen_devices (take 16 (allDevices seventeen_devices))) = 16"
proof -
  have h: "scan seventeen_devices [''-legacy''] Args_init []
      = LoopDone (Args_init\<lparr>useLegacy := True\<rparr>) []"
    by simp
  have m: "''--help'' = ''-h'' \<or> ''--help'' = ''--help''" by simp
  from C10_help_lists_at_most_16_devices [OF h m, of "''gpuowl''" "[''-bogus'']"]
  show ?thesis
    by (simp add: seventeen_devices_def Args_init_def DEFAULT_LOGSTEP_def)
qed

section \<open>Timing of the kernels\<close>

text \<open>
  Claim C6. Take arguments that contain \<open>-time kernels\<close> as a flag (the arguments before
  it are complete flags) and whose scan ends without error, \<open>a1\<close> being the configuration
  at the end of the loop. If \<open>logStep\<close> is 1 there, \<open>parse\<close> returns true with
  \<open>timeKernels\<close> false, and it logs exactly two calls: the warning, then the echo of the
  configuration. If \<open>logStep\<close> is greater than 1, \<open>parse\<close> returns true with \<open>timeKernels\<close>
  true, and logs the echo only.
\<close>

theorem C6_time_kernels:
  assumes "scan env pre Args_init out = LoopDone a0 out0"
    and "scan env (pre @ ''-time'' # ''kernels'' # post) Args_init out = LoopDone a1 out1"
  shows "(sint (logStep a1) = 1 \<longrightarrow>
      (\<exists>a args. parse env (prog # pre @ ''-time'' # ''kernels'' # post) Args_init out
            = (Returned True, a, out @ [(warn_fmt, []), (config_fmt, args)])
         \<and> logStep a = logStep a1 \<and> \<not> timeKernels a))
    \<and> (1 < sint (logStep a1) \<longrightarrow>
      (\<exists>a args. parse env (prog # pre @ ''-time'' # ''kernels'' # post) Args_init out
            = (Returned True, a, out @ [(config_fmt, args)])
         \<and> logStep a = logStep a1 \<and> timeKernels a))"
proof -
  let ?argv = "prog # pre @ ''-time'' # ''kernels'' # post"
  from assms(2) have "scan env (''-time'' # ''kernels'' # post) a0 out = LoopDone a1 out1"
    by (simp only: scan_after_prefix [OF assms(1)])
  then have "scan env post (a0\<lparr>timeKernels := True\<rparr>) out = LoopDone a1 out1"
    by simp
  then have tk: "timeKernels a1"
    by (rule scan_keeps_timeKernels) simp
  have pos: "0 <s logStep a1"
    using assms(2) Args_init_logStep_pos by (rule scan_logStep_pos)
  have run: "scan env (drop 1 ?argv) Args_init out = LoopDone a1 out1"
    using assms(2) by simp
  note p = parse_LoopDone [OF run pos]
  have l: "logStep (normalized a1) = logStep a1" by (simp add: normalized_def)
  show ?thesis
  proof (intro conjI impI)
    assume "sint (logStep a1) = 1"
    then have one: "logStep a1 = 1" by (simp add: sint_eq_1_iff)
    obtain args where "logConfig (normalized a1) (out @ [(warn_fmt, [])])
        = (out @ [(warn_fmt, [])]) @ [(config_fmt, args)]"
      using logConfig_append by blast
    with p tk one l show "\<exists>a args. parse env ?argv Args_init out
            = (Returned True, a, out @ [(warn_fmt, []), (config_fmt, args)])
         \<and> logStep a = logStep a1 \<and> \<not> timeKernels a"
      by (simp add: log_def normalized_def)
  next
    assume "1 < sint (logStep a1)"
    then have ne: "logStep a1 \<noteq> 1" by auto
    obtain args where "logConfig (normalized a1) out = out @ [(config_fmt, args)]"
      using logConfig_append by blast
    with p tk ne l show "\<exists>a args. parse env ?argv Args_init out
            = (Returned True, a, out @ [(config_fmt, args)])
         \<and> logStep a = logStep a1 \<and> timeKernels a"
      by (simp add: normalized_def)
  qed
qed

text \<open>Both cases: \<open>-logstep 1 -time kernels -legacy\<close> and \<open>-logstep 2 -time kernels -legacy\<close>.\<close>

theorem C6_witness:
  "parse two_devices [''gpuowl'', ''-logstep'', ''1'', ''-time'', ''kernels'', ''-legacy'']
       Args_init []
     = (Returned True,
        Args_init\<lparr>logStep := 1, saveStep := 500, checkStep := 10, useLegacy := True\<rparr>,
        [(warn_fmt, []), (config_fmt, [D 1, D 500, D 10, S '' -legacy''])])
   \<and> parse two_devices [''gpuowl'', ''-logstep'', ''2'', ''-time'', ''kernels'', ''-legacy'']
       Args_init []
     = (Returned True,
        Args_init\<lparr>logStep := 2, saveStep := 1000, checkStep := 20, useLegacy := True,
          timeKernels := True\<rparr>,
        [(config_fmt, [D 2, D 1000, D 20, S '' -time kernels -legacy''])])"
proof -
  have a1: "atoi ''1'' = 1" and a2: "atoi ''2'' = 2"
    by (simp_all add: atoi_def strtol10_def isspace_def isdigit_def)
  have p1: "scan two_devices [''-logstep'', ''1''] Args_init []
      = LoopDone (Args_init\<lparr>logStep := 1\<rparr>) []"
    by (simp add: a1 word_sle_eq)
  have r1: "scan two_devices ([''-logstep'', ''1''] @ ''-time'' # ''kernels'' # [''-legacy''])
        Args_init []
      = LoopDone (Args_init\<lparr>logStep := 1, timeKernels := True, useLegacy := True\<rparr>) []"
    by (simp add: a1 word_sle_eq)
  have p2: "scan two_devices [''-logstep'', ''2''] Args_init []
      = LoopDone (Args_init\<lparr>logStep := 2\<rparr>) []"
    by (simp add: a2 word_sle_eq)
  have r2: "scan two_devices ([''-logstep'', ''2''] @ ''-time'' # ''kernels'' # [''-legacy''])
        Args_init []
      = LoopDone (Args_init\<lparr>logStep := 2, timeKernels := True, useLegacy := True\<rparr>) []"
    by (simp add: a2 word_sle_eq)
  have e1: "parse two_devices [''gpuowl'', ''-logstep'', ''1'', ''-time'', ''kernels'', ''-legacy'']
       Args_init []
     = (Returned True,
        Args_init\<lparr>logStep := 1, saveStep := 500, checkStep := 10, useLegacy := True\<rparr>,
        [(warn_fmt, []), (config_fmt, [D 1, D 500, D 10, S '' -legacy''])])"
    by (simp add: parse_def normalize_args_def Args_init_def c_rem_def smod_int_alt_def a1
        logConfig_def log_def Let_def word_sless_alt word_sle_eq)
  have e2: "parse two_devices [''gpuowl'', ''-logstep'', ''2'', ''-time'', ''kernels'', ''-legacy'']
       Args_init []
     = (Returned True,
        Args_init\<lparr>logStep := 2, saveStep := 1000, checkStep := 20, useLegacy := True,
          timeKernels := True\<rparr>,
        [(config_fmt, [D 2, D 1000, D 20, S '' -time kernels -legacy''])])"
    by (simp add: parse_def normalize_args_def Args_init_def c_rem_def a2
        logConfig_def log_def Let_def word_sless_alt word_sle_eq)
  from C6_time_kernels [OF p1 r1, of "''gpuowl''"] C6_time_kernels [OF p2 r2, of "''gpuowl''"]
    e1 e2
  show ?thesis by simp
qed

section \<open>The derived defaults\<close>

text \<open>
  Where the products fit an \<open>int\<close>, the derived defaults are what the usage text
  documents. Let \<open>-logstep v\<close> be the last \<open>-logstep\<close> flag of the arguments (the arguments
  before it are complete flags, no \<open>-logstep\<close> follows), let the arguments hold no
  \<open>-savestep\<close> and no \<open>-checkstep\<close>, and let \<open>parse\<close> return true. Then \<open>L = atoi v\<close> is
  positive and is the resulting \<open>logStep\<close>; the resulting \<open>saveStep\<close> is \<open>500 * L\<close> when
  \<open>500 * L \<le> 2147483647\<close>, and the resulting \<open>checkStep\<close> is \<open>10 * L\<close> when
  \<open>10 * L \<le> 2147483647\<close>.
\<close>

lemma derived_defaults_in_range:
  assumes "scan env pre Args_init out = LoopDone a0 out0"
    and "parse env (prog # pre @ ''-logstep'' # v # post) Args_init out = (Returned True, a, out')"
    and "''-logstep'' \<notin> set post"
    and "''-savestep'' \<notin> set (pre @ post)"
    and "''-checkstep'' \<notin> set (pre @ post)"
  shows "0 < sint (atoi v) \<and> sint (logStep a) = sint (atoi v)
    \<and> (500 * sint (atoi v) \<le> 2147483647 \<longrightarrow> sint (saveStep a) = 500 * sint (atoi v))
    \<and> (10 * sint (atoi v) \<le> 2147483647 \<longrightarrow> sint (checkStep a) = 10 * sint (atoi v))"
proof -
  let ?L = "atoi v"
  from assms(2) obtain a1 where
    run: "scan env (drop 1 (prog # pre @ ''-logstep'' # v # post)) Args_init out = LoopDone a1 out"
    and a: "a = normalized a1"
    by (rule parse_True)
  from run have run': "scan env (pre @ ''-logstep'' # v # post) Args_init out = LoopDone a1 out"
    by simp
  from scan_last_logstep [OF assms(1) run' assms(3)]
  have pos: "0 <s ?L" and l: "logStep a1 = ?L"
    and rest: "scan env post (a0\<lparr>logStep := ?L\<rparr>) out = LoopDone a1 out"
    by simp_all
  have pos': "0 < sint ?L" using pos by (simp add: word_sless_alt)
  have "saveStep a0 = saveStep Args_init" "checkStep a0 = checkStep Args_init"
    using assms(1,4,5) by (simp_all add: scan_keeps_saveStep scan_keeps_checkStep)
  moreover have "saveStep a1 = saveStep (a0\<lparr>logStep := ?L\<rparr>)"
    "checkStep a1 = checkStep (a0\<lparr>logStep := ?L\<rparr>)"
    using rest assms(4,5) by (simp_all add: scan_keeps_saveStep scan_keeps_checkStep)
  ultimately have z: "saveStep a1 = 0" "checkStep a1 = 0"
    by (simp_all add: Args_init_def)
  have s: "sint (saveStep a) = 500 * sint ?L" if "500 * sint ?L \<le> 2147483647"
  proof -
    have m: "sint (?L * 500) = sint ?L * sint (500 :: int32)"
      using that pos' by (intro sint_mult_int32) simp_all
    then have "sint ?L \<le> sint (?L * 500)" using pos' by simp
    then show ?thesis
      using pos' m by (simp add: a normalized_def z l sint_clamp_trunc max_def)
  qed
  have c: "sint (checkStep a) = 10 * sint ?L" if "10 * sint ?L \<le> 2147483647"
  proof -
    have m: "sint (?L * 10) = sint ?L * sint (10 :: int32)"
      using that pos' by (intro sint_mult_int32) simp_all
    then have "sint ?L \<le> sint (?L * 10)" using pos' by simp
    then show ?thesis
      using pos' m by (simp add: a normalized_def z l sint_clamp_trunc max_def)
  qed
  have "sint (logStep a) = sint ?L" by (simp add: a normalized_def l)
  with pos' s c show ?thesis by simp
qed

text \<open>For instance at \<open>-supersafe -logstep 3 -legacy\<close>.\<close>

lemma derived_defaults_in_range_example:
  "parse two_devices [''gpuowl'', ''-supersafe'', ''-logstep'', ''3'', ''-legacy''] Args_init []
     = (Returned True,
        Args_init\<lparr>safe := True, logStep := 3, useLegacy := True, saveStep := 1500,
          checkStep := 30\<rparr>,
        [(config_fmt, [D 3, D 1500, D 30, S '' -supersafe -legacy''])])
   \<and> 0 < sint (atoi ''3'') \<and> sint (3 :: int32) = sint (atoi ''3'')
   \<and> 500 * sint (atoi ''3'') \<le> 2147483647
   \<and> sint (1500 :: int32) = 500 * sint (atoi ''3'')
   \<and> 10 * sint (atoi ''3'') \<le> 2147483647
   \<and> sint (30 :: int32) = 10 * sint (atoi ''3'')"
proof -
  have a: "atoi ''3'' = 3"
    by (simp add: atoi_def strtol10_def isspace_def isdigit_def)
  have p: "scan two_devices [''-supersafe''] Args_init [] = LoopDone (Args_init\<lparr>safe := True\<rparr>) []"
    by simp
  have e: "parse two_devices (''gpuowl'' # [''-supersafe''] @ ''-logstep'' # ''3'' # [''-legacy''])
       Args_init []
     = (Returned True,
        Args_init\<lparr>safe := True, logStep := 3, useLegacy := True, saveStep := 1500,
          checkStep := 30\<rparr>,
        [(config_fmt, [D 3, D 1500, D 30, S '' -supersafe -legacy''])])"
    by (simp add: parse_def normalize_args_def Args_init_def c_rem_def smod_int_alt_def a
        logConfig_def log_def Let_def word_sless_alt word_sle_eq)
  have n1: "''-logstep'' \<notin> set [''-legacy'']"
    and n2: "''-savestep'' \<notin> set ([''-supersafe''] @ [''-legacy''])"
    and n3: "''-checkstep'' \<notin> set ([''-supersafe''] @ [''-legacy''])"
    by simp_all
  from derived_defaults_in_range [OF p e n1 n2 n3] e
  show ?thesis by (simp add: Args_init_def a)
qed

text \<open>
  Claim C2: for every \<open>L > 0\<close> given with \<open>-logstep\<close>, with no \<open>-savestep\<close> and no
  \<open>-checkstep\<close> flag, when \<open>parse\<close> returns true the resulting \<open>saveStep\<close> is \<open>500 * L\<close> and
  the resulting \<open>checkStep\<close> is \<open>10 * L\<close>. The code breaks it where \<open>logStep * 500\<close>
  overflows, on values that the only check of \<open>-logstep\<close> (\<open>logStep \<le> 0\<close>) accepts.
  At \<open>-logstep 5000000\<close>, \<open>parse\<close> returns true with \<open>saveStep = 5000000\<close>, not
  \<open>2500000000\<close>: the product wraps to \<open>-1794967296\<close> and the clamping replaces it by
  \<open>logStep\<close>. At \<open>-logstep 9000000\<close> it returns true with \<open>saveStep = 198000000\<close>, which is
  neither \<open>500 * L\<close> nor \<open>L\<close>. The usage text of the code itself gives the default as
  \<open>500*logstep\<close>, and at \<open>-logstep 5000000 -h\<close> it prints \<open>-1794967296\<close> for it.
\<close>

theorem C2_overflow_of_derived_default:
  "parse two_devices [''gpuowl'', ''-logstep'', ''5000000''] Args_init []
     = (Returned True,
        Args_init\<lparr>logStep := 5000000, saveStep := 5000000, checkStep := 50000000\<rparr>,
        [(config_fmt, [D 5000000, D 5000000, D 50000000, S []])])
   \<and> sint (5000000 :: int32) = 5000000
   \<and> sint (5000000 * 500 :: int32) = - 1794967296
   \<and> parse two_devices [''gpuowl'', ''-logstep'', ''9000000''] Args_init []
     = (Returned True,
        Args_init\<lparr>logStep := 9000000, saveStep := 198000000, checkStep := 90000000\<rparr>,
        [(config_fmt, [D 9000000, D 198000000, D 90000000, S []])])
   \<and> sint (9000000 :: int32) = 9000000 \<and> sint (198000000 :: int32) = 198000000
   \<and> hd (snd (snd (parse two_devices [''gpuowl'', ''-logstep'', ''5000000'', ''-h'']
        Args_init [])))
     = (usage_fmt, [D 5000000, D (5000000 * 500), D 50000000])"
proof -
  have a: "atoi ''5000000'' = 5000000" "atoi ''9000000'' = 9000000"
    by (simp_all add: atoi_def strtol10_def isspace_def isdigit_def)
  have p5: "parse two_devices [''gpuowl'', ''-logstep'', ''5000000''] Args_init []
     = (Returned True,
        Args_init\<lparr>logStep := 5000000, saveStep := 5000000, checkStep := 50000000\<rparr>,
        [(config_fmt, [D 5000000, D 5000000, D 50000000, S []])])"
    by (simp add: parse_def normalize_args_def Args_init_def c_rem_def smod_int_alt_def a
        logConfig_def log_def Let_def word_sless_alt word_sle_eq)
  have p9: "parse two_devices [''gpuowl'', ''-logstep'', ''9000000''] Args_init []
     = (Returned True,
        Args_init\<lparr>logStep := 9000000, saveStep := 198000000, checkStep := 90000000\<rparr>,
        [(config_fmt, [D 9000000, D 198000000, D 90000000, S []])])"
    by (simp add: parse_def normalize_args_def Args_init_def c_rem_def smod_int_alt_def a
        logConfig_def log_def Let_def word_sless_alt word_sle_eq)
  have h: "hd (snd (snd (parse two_devices [''gpuowl'', ''-logstep'', ''5000000'', ''-h'']
        Args_init [])))
     = (usage_fmt, [D 5000000, D (5000000 * 500), D 50000000])"
    by (simp add: parse_def a Let_def log_def word_sle_eq Args_init_def logDevices_eq)
  from p5 p9 h show ?thesis by simp
qed

section \<open>An explicit -savestep\<close>

text \<open>
  Claim C3. Let \<open>-savestep v\<close> be the last \<open>-savestep\<close> flag of the arguments (the
  arguments before it are complete flags, no \<open>-savestep\<close> follows), \<open>S = atoi v\<close>, and let
  \<open>parse\<close> return true, \<open>L\<close> being the resulting \<open>logStep\<close>. Then \<open>S > 0\<close>; if \<open>S < L\<close> the
  resulting \<open>saveStep\<close> is \<open>L\<close>; if \<open>S \<ge> L\<close> it is \<open>S - S mod L\<close>, which is at most \<open>S\<close>.
\<close>

theorem C3_explicit_savestep:
  assumes "scan env pre Args_init out = LoopDone a0 out0"
    and "parse env (prog # pre @ ''-savestep'' # v # post) Args_init out = (Returned True, a, out')"
    and "''-savestep'' \<notin> set post"
  shows "0 < sint (atoi v)
    \<and> (sint (atoi v) < sint (logStep a) \<longrightarrow> sint (saveStep a) = sint (logStep a))
    \<and> (sint (logStep a) \<le> sint (atoi v) \<longrightarrow>
          sint (saveStep a) = sint (atoi v) - sint (atoi v) mod sint (logStep a)
          \<and> sint (saveStep a) \<le> sint (atoi v))"
proof -
  let ?S = "atoi v"
  from assms(2) obtain a1 where
    run: "scan env (drop 1 (prog # pre @ ''-savestep'' # v # post)) Args_init out = LoopDone a1 out"
    and lpos: "0 <s logStep a1" and a: "a = normalized a1"
    by (rule parse_True)
  from run have run': "scan env (pre @ ''-savestep'' # v # post) Args_init out = LoopDone a1 out"
    by simp
  from scan_last_savestep [OF assms(1) run' assms(3)]
  have pos: "0 <s ?S" and s: "saveStep a1 = ?S" by simp_all
  have pos': "0 < sint ?S" using pos by (simp add: word_sless_alt)
  then have nz: "?S \<noteq> 0" by auto
  have lpos': "0 < sint (logStep a1)" using lpos by (simp add: word_sless_alt)
  have l: "logStep a = logStep a1" by (simp add: a normalized_def)
  have v: "sint (saveStep a)
      = max (sint ?S) (sint (logStep a)) - max (sint ?S) (sint (logStep a)) mod sint (logStep a)"
    using lpos' nz by (simp add: a normalized_def s sint_clamp_trunc)
  have small: "sint (saveStep a) = sint (logStep a)" if "sint ?S < sint (logStep a)"
    using that v by (simp add: max_def)
  have large: "sint (saveStep a) = sint ?S - sint ?S mod sint (logStep a)
      \<and> sint (saveStep a) \<le> sint ?S" if "sint (logStep a) \<le> sint ?S"
  proof -
    have "0 \<le> sint ?S mod sint (logStep a)" using lpos' l by simp
    then show ?thesis using that v by (simp add: max_def)
  qed
  from pos' small large show ?thesis by blast
qed

text \<open>
  Both cases: \<open>-savestep 5\<close> with the default \<open>logStep\<close> of 20000, and
  \<open>-logstep 3 -savestep 10 -selftest\<close>.
\<close>

theorem C3_witness:
  "parse two_devices [''gpuowl'', ''-savestep'', ''5''] Args_init []
     = (Returned True, Args_init\<lparr>saveStep := 20000, checkStep := 200000\<rparr>,
        [(config_fmt, [D 20000, D 20000, D 200000, S []])])
   \<and> 0 < sint (atoi ''5'') \<and> sint (atoi ''5'') < sint (20000 :: int32)
   \<and> parse two_devices [''gpuowl'', ''-logstep'', ''3'', ''-savestep'', ''10'', ''-selftest'']
       Args_init []
     = (Returned True,
        Args_init\<lparr>logStep := 3, saveStep := 9, checkStep := 30, selfTest := True\<rparr>,
        [(config_fmt, [D 3, D 9, D 30, S '' -selftest''])])
   \<and> 0 < sint (atoi ''10'') \<and> sint (3 :: int32) \<le> sint (atoi ''10'')
   \<and> sint (9 :: int32) = sint (atoi ''10'') - sint (atoi ''10'') mod sint (3 :: int32)
   \<and> sint (9 :: int32) \<le> sint (atoi ''10'')"
proof -
  have a: "atoi ''5'' = 5" "atoi ''3'' = 3" "atoi ''10'' = 10"
    by (simp_all add: atoi_def strtol10_def isspace_def isdigit_def)
  have p1: "scan two_devices [] Args_init [] = LoopDone Args_init []"
    by simp
  have e1: "parse two_devices (''gpuowl'' # [] @ ''-savestep'' # ''5'' # []) Args_init []
     = (Returned True, Args_init\<lparr>saveStep := 20000, checkStep := 200000\<rparr>,
        [(config_fmt, [D 20000, D 20000, D 200000, S []])])"
    by (simp add: parse_def normalize_args_def Args_init_def DEFAULT_LOGSTEP_def c_rem_def
        smod_int_alt_def a logConfig_def log_def Let_def word_sless_alt word_sle_eq)
  have p2: "scan two_devices [''-logstep'', ''3''] Args_init []
      = LoopDone (Args_init\<lparr>logStep := 3\<rparr>) []"
    by (simp add: a word_sle_eq)
  have e2: "parse two_devices
       (''gpuowl'' # [''-logstep'', ''3''] @ ''-savestep'' # ''10'' # [''-selftest''])
       Args_init []
     = (Returned True,
        Args_init\<lparr>logStep := 3, saveStep := 9, checkStep := 30, selfTest := True\<rparr>,
        [(config_fmt, [D 3, D 9, D 30, S '' -selftest''])])"
    by (simp add: parse_def normalize_args_def Args_init_def DEFAULT_LOGSTEP_def c_rem_def
        smod_int_alt_def a logConfig_def log_def Let_def word_sless_alt word_sle_eq)
  have n1: "''-savestep'' \<notin> set []" and n2: "''-savestep'' \<notin> set [''-selftest'']"
    by simp_all
  from C3_explicit_savestep [OF p1 e1 n1] C3_explicit_savestep [OF p2 e2 n2] e1 e2
  show ?thesis by (simp add: Args_init_def DEFAULT_LOGSTEP_def a)
qed

section \<open>Values that are not numbers\<close>

text \<open>
  Claim C5. On a token with no digit, \<open>atoi\<close> gives 0. So when the loop reaches
  \<open>-logstep\<close> followed by such a token, \<open>parse\<close> returns false with the diagnostic
  \<open>invalid -logstep\<close> (the check \<open>logStep \<le> 0\<close>); when it reaches \<open>-device\<close> followed by
  such a token and the platform has at least one device, 0 passes the range check: the
  loop goes on with \<open>device = 0\<close>, and with no further argument \<open>parse\<close> returns true
  with \<open>device = 0\<close>.
\<close>

theorem C5_lax_numeric_parse:
  assumes "\<forall>c\<in>set s. \<not> isdigit c"
    and "scan env pre Args_init out = LoopDone a0 out0"
  shows \<open>atoi s = 0
    \<and> parse env (prog # pre @ ''-logstep'' # s # post) Args_init out
        = (Returned False, a0\<lparr>logStep := 0\<rparr>, out @ [(''invalid -logstep '%s'\<newline>'', [S s])])
    \<and> (0 <s getNumberOfDevices env \<longrightarrow>
          scan env (pre @ ''-device'' # s # post) Args_init out
            = scan env post (a0\<lparr>device := 0\<rparr>) out
          \<and> (\<exists>a out'. parse env (prog # pre @ [''-device'', s]) Args_init out
                = (Returned True, a, out') \<and> device a = 0))\<close>
proof -
  have z: "atoi s = 0" using assms(1) by (rule atoi_no_digit)
  have l: \<open>parse env (prog # pre @ ''-logstep'' # s # post) Args_init out
        = (Returned False, a0\<lparr>logStep := 0\<rparr>, out @ [(''invalid -logstep '%s'\<newline>'', [S s])])\<close>
    by (simp add: parse_def scan_after_prefix [OF assms(2)] z log_def)
  have d: "scan env (pre @ ''-device'' # s # post) Args_init out
            = scan env post (a0\<lparr>device := 0\<rparr>) out
          \<and> (\<exists>a out'. parse env (prog # pre @ [''-device'', s]) Args_init out
                = (Returned True, a, out') \<and> device a = 0)"
    if n: "0 <s getNumberOfDevices env"
  proof -
    have c: "scan env (pre @ ''-device'' # s # xs) Args_init out
        = scan env xs (a0\<lparr>device := 0\<rparr>) out" for xs
      using n by (simp add: scan_after_prefix [OF assms(2)] z Let_def word_sless_alt word_sle_eq)
    have "0 <s logStep a0"
      using assms(2) Args_init_logStep_pos by (rule scan_logStep_pos)
    then have pos: "0 <s logStep (a0\<lparr>device := 0\<rparr>)" by simp
    have "scan env (drop 1 (prog # pre @ [''-device'', s])) Args_init out
        = LoopDone (a0\<lparr>device := 0\<rparr>) out"
      using c [of "[]"] by simp
    from parse_LoopDone [OF this pos] c [of post] show ?thesis
      by (simp add: normalized_def)
  qed
  from z l d show ?thesis by blast
qed

text \<open>The claim at the token \<open>abc\<close>, on a platform with two devices.\<close>

theorem C5_witness:
  \<open>atoi ''abc'' = 0
   \<and> parse two_devices [''gpuowl'', ''-logstep'', ''abc'', ''-legacy''] Args_init []
     = (Returned False, Args_init\<lparr>logStep := 0\<rparr>, [(''invalid -logstep '%s'\<newline>'', [S ''abc''])])
   \<and> 0 <s getNumberOfDevices two_devices
   \<and> parse two_devices [''gpuowl'', ''-device'', ''abc''] Args_init []
     = (Returned True, Args_init\<lparr>device := 0, saveStep := 10000000, checkStep := 200000\<rparr>,
        [(config_fmt, [D 20000, D 10000000, D 200000, S []])])\<close>
proof -
  have n: "\<forall>c\<in>set ''abc''. \<not> isdigit c" by (simp add: isdigit_def)
  have p: "scan two_devices [] Args_init [] = LoopDone Args_init []" by simp
  have d: "0 <s getNumberOfDevices two_devices"
    by (simp add: two_devices_def word_sless_alt)
  note t = C5_lax_numeric_parse [OF n p, of "''gpuowl''" "[''-legacy'']"]
  from t have z: "atoi ''abc'' = 0" by simp
  have e: "parse two_devices [''gpuowl'', ''-device'', ''abc''] Args_init []
     = (Returned True, Args_init\<lparr>device := 0, saveStep := 10000000, checkStep := 200000\<rparr>,
        [(config_fmt, [D 20000, D 10000000, D 200000, S []])])"
    by (simp add: parse_def normalize_args_def Args_init_def DEFAULT_LOGSTEP_def c_rem_def
        smod_int_alt_def z logConfig_def log_def Let_def word_sless_alt word_sle_eq
        two_devices_def)
  from t d e show ?thesis by simp
qed

section \<open>Repeated flags\<close>

text \<open>
  Claim C9 as stated: when a value flag occurs more than once and \<open>parse\<close> returns true,
  the field holds the value of the last occurrence. For \<open>-savestep\<close> this fails at
  \<open>-savestep 40000 -savestep 50000\<close>: \<open>parse\<close> returns true and \<open>saveStep\<close> is not 50000
  (it is 40000, the greatest multiple of the default \<open>logStep\<close> below 50000).
\<close>

theorem C9_counterexample:
  "fst (parse two_devices [''gpuowl'', ''-savestep'', ''40000'', ''-savestep'', ''50000'']
      Args_init []) = Returned True
   \<and> saveStep (fst (snd (parse two_devices
        [''gpuowl'', ''-savestep'', ''40000'', ''-savestep'', ''50000''] Args_init [])))
     \<noteq> atoi ''50000''"
proof -
  have a: "atoi ''40000'' = 40000" "atoi ''50000'' = 50000"
    by (simp_all add: atoi_def strtol10_def isspace_def isdigit_def)
  have "parse two_devices [''gpuowl'', ''-savestep'', ''40000'', ''-savestep'', ''50000'']
      Args_init []
     = (Returned True, Args_init\<lparr>saveStep := 40000, checkStep := 200000\<rparr>,
        [(config_fmt, [D 20000, D 40000, D 200000, S []])])"
    by (simp add: parse_def normalize_args_def Args_init_def DEFAULT_LOGSTEP_def c_rem_def
        smod_int_alt_def a logConfig_def log_def Let_def word_sless_alt word_sle_eq)
  then show ?thesis by (simp add: a)
qed

text \<open>
  Claim C9, amended. Let the loop reach the flag \<open>f\<close> with the value \<open>v\<close> (the arguments
  before it are complete flags, which may hold earlier occurrences of \<open>f\<close>).
  Every occurrence is validated: if \<open>f\<close> is \<open>-logstep\<close>, \<open>-savestep\<close> or \<open>-checkstep\<close> and
  \<open>atoi v \<le> 0\<close>, or \<open>f\<close> is \<open>-device\<close> and \<open>atoi v\<close> is out of range, \<open>parse\<close> returns
  false whatever follows, also a later valid occurrence.
  If this occurrence is the last one of \<open>f\<close> and \<open>parse\<close> returns true, then \<open>logStep\<close>,
  \<open>uid\<close>, \<open>clArgs\<close> and \<open>device\<close> hold the value of this occurrence, while \<open>saveStep\<close> and
  \<open>checkStep\<close> hold it after the clamping and the truncation: \<open>max(S, L) - max(S, L) mod
  L\<close>, for \<open>S = atoi v\<close> and \<open>L\<close> the resulting \<open>logStep\<close>.
\<close>

theorem C9_repeated_flags:
  assumes "scan env pre Args_init out = LoopDone a0 out0"
  shows "(f \<in> set [''-logstep'', ''-savestep'', ''-checkstep''] \<and> atoi v \<le>s 0 \<longrightarrow>
        fst (parse env (prog # pre @ f # v # post) Args_init out) = Returned False)
    \<and> (f = ''-device'' \<and> (atoi v <s 0 \<or> getNumberOfDevices env \<le>s atoi v) \<longrightarrow>
        fst (parse env (prog # pre @ f # v # post) Args_init out) = Returned False)
    \<and> (f \<notin> set post
        \<and> parse env (prog # pre @ f # v # post) Args_init out = (Returned True, a, out') \<longrightarrow>
        (f = ''-logstep'' \<longrightarrow> logStep a = atoi v)
        \<and> (f = ''-uid'' \<longrightarrow> uid a = v)
        \<and> (f = ''-cl'' \<longrightarrow> clArgs a = v)
        \<and> (f = ''-device'' \<longrightarrow> device a = atoi v)
        \<and> (f = ''-savestep'' \<longrightarrow>
              sint (saveStep a) = max (sint (atoi v)) (sint (logStep a))
                - max (sint (atoi v)) (sint (logStep a)) mod sint (logStep a))
        \<and> (f = ''-checkstep'' \<longrightarrow>
              sint (checkStep a) = max (sint (atoi v)) (sint (logStep a))
                - max (sint (atoi v)) (sint (logStep a)) mod sint (logStep a)))"
proof (intro conjI impI)
  assume "f \<in> set [''-logstep'', ''-savestep'', ''-checkstep''] \<and> atoi v \<le>s 0"
  then obtain b o' where "scan env (f # v # post) a0 out = ReturnFalse b o'"
    using scan_invalid_step by blast
  then have "scan env (drop 1 (prog # pre @ f # v # post)) Args_init out = ReturnFalse b o'"
    by (simp add: scan_after_prefix [OF assms] del: scan.simps)
  then show "fst (parse env (prog # pre @ f # v # post) Args_init out) = Returned False"
    by (rule parse_ReturnFalse)
next
  assume "f = ''-device'' \<and> (atoi v <s 0 \<or> getNumberOfDevices env \<le>s atoi v)"
  then obtain b o' where "scan env (f # v # post) a0 out = ReturnFalse b o'"
    using scan_invalid_device by blast
  then have "scan env (drop 1 (prog # pre @ f # v # post)) Args_init out = ReturnFalse b o'"
    by (simp add: scan_after_prefix [OF assms] del: scan.simps)
  then show "fst (parse env (prog # pre @ f # v # post) Args_init out) = Returned False"
    by (rule parse_ReturnFalse)
next
  assume h: "f \<notin> set post
    \<and> parse env (prog # pre @ f # v # post) Args_init out = (Returned True, a, out')"
  then obtain a1 where
    run: "scan env (drop 1 (prog # pre @ f # v # post)) Args_init out = LoopDone a1 out"
    and lpos: "0 <s logStep a1" and a: "a = normalized a1"
    by (auto elim: parse_True)
  from run have run': "scan env (pre @ f # v # post) Args_init out = LoopDone a1 out"
    by simp
  from h have last: "f \<notin> set post" by simp
  have lpos': "0 < sint (logStep a1)" using lpos by (simp add: word_sless_alt)
  {
    assume f: "f = ''-logstep''"
    from scan_last_logstep [OF assms run' [unfolded f] last [unfolded f]]
    show "logStep a = atoi v" by (simp add: a normalized_def)
  next
    assume f: "f = ''-uid''"
    from scan_last_uid [OF assms run' [unfolded f] last [unfolded f]]
    show "uid a = v" by (simp add: a normalized_def)
  next
    assume f: "f = ''-cl''"
    from scan_last_cl [OF assms run' [unfolded f] last [unfolded f]]
    show "clArgs a = v" by (simp add: a normalized_def)
  next
    assume f: "f = ''-device''"
    from scan_last_device [OF assms run' [unfolded f] last [unfolded f]]
    show "device a = atoi v" by (simp add: a normalized_def)
  next
    assume f: "f = ''-savestep''"
    from scan_last_savestep [OF assms run' [unfolded f] last [unfolded f]]
    have pos: "0 <s atoi v" and s: "saveStep a1 = atoi v" by simp_all
    from pos have "atoi v \<noteq> 0" by (auto simp: word_sless_alt)
    then show "sint (saveStep a) = max (sint (atoi v)) (sint (logStep a))
        - max (sint (atoi v)) (sint (logStep a)) mod sint (logStep a)"
      using lpos' by (simp add: a normalized_def s sint_clamp_trunc)
  next
    assume f: "f = ''-checkstep''"
    from scan_last_checkstep [OF assms run' [unfolded f] last [unfolded f]]
    have pos: "0 <s atoi v" and s: "checkStep a1 = atoi v" by simp_all
    from pos have "atoi v \<noteq> 0" by (auto simp: word_sless_alt)
    then show "sint (checkStep a) = max (sint (atoi v)) (sint (logStep a))
        - max (sint (atoi v)) (sint (logStep a)) mod sint (logStep a)"
      using lpos' by (simp add: a normalized_def s sint_clamp_trunc)
  }
qed

text \<open>
  The amended claim at \<open>-logstep 0 -logstep 5\<close> (false), \<open>-uid a -uid b\<close> and
  \<open>-savestep 40000 -savestep 50000\<close>.
\<close>

theorem C9_witness:
  "atoi ''0'' \<le>s 0
   \<and> fst (parse two_devices [''gpuowl'', ''-logstep'', ''0'', ''-logstep'', ''5''] Args_init [])
       = Returned False
   \<and> parse two_devices [''gpuowl'', ''-uid'', ''a'', ''-uid'', ''b''] Args_init []
     = (Returned True, Args_init\<lparr>uid := ''b'', saveStep := 10000000, checkStep := 200000\<rparr>,
        [(config_fmt, [D 20000, D 10000000, D 200000, S '' -uid b''])])
   \<and> parse two_devices [''gpuowl'', ''-savestep'', ''40000'', ''-savestep'', ''50000'']
       Args_init []
     = (Returned True, Args_init\<lparr>saveStep := 40000, checkStep := 200000\<rparr>,
        [(config_fmt, [D 20000, D 40000, D 200000, S []])])
   \<and> sint (40000 :: int32) = max (sint (atoi ''50000'')) (sint (20000 :: int32))
       - max (sint (atoi ''50000'')) (sint (20000 :: int32)) mod sint (20000 :: int32)"
proof -
  have a: "atoi ''0'' = 0" "atoi ''40000'' = 40000" "atoi ''50000'' = 50000"
    by (simp_all add: atoi_def strtol10_def isspace_def isdigit_def)
  have p1: "scan two_devices [] Args_init [] = LoopDone Args_init []"
    by simp
  have p2: "scan two_devices [''-uid'', ''a''] Args_init [] = LoopDone (Args_init\<lparr>uid := ''a''\<rparr>) []"
    by simp
  have p3: "scan two_devices [''-savestep'', ''40000''] Args_init []
      = LoopDone (Args_init\<lparr>saveStep := 40000\<rparr>) []"
    by (simp add: a word_sle_eq)
  have e2: "parse two_devices (''gpuowl'' # [''-uid'', ''a''] @ ''-uid'' # ''b'' # []) Args_init []
     = (Returned True, Args_init\<lparr>uid := ''b'', saveStep := 10000000, checkStep := 200000\<rparr>,
        [(config_fmt, [D 20000, D 10000000, D 200000, S '' -uid b''])])"
    by (simp add: parse_def normalize_args_def Args_init_def DEFAULT_LOGSTEP_def c_rem_def
        smod_int_alt_def logConfig_def log_def Let_def word_sless_alt word_sle_eq)
  have e3: "parse two_devices
       (''gpuowl'' # [''-savestep'', ''40000''] @ ''-savestep'' # ''50000'' # []) Args_init []
     = (Returned True, Args_init\<lparr>saveStep := 40000, checkStep := 200000\<rparr>,
        [(config_fmt, [D 20000, D 40000, D 200000, S []])])"
    by (simp add: parse_def normalize_args_def Args_init_def DEFAULT_LOGSTEP_def c_rem_def
        smod_int_alt_def a logConfig_def log_def Let_def word_sless_alt word_sle_eq)
  note t1 = C9_repeated_flags [OF p1, where f = "''-logstep''" and v = "''0''"
      and prog = "''gpuowl''" and post = "[''-logstep'', ''5'']"]
  note t2 = C9_repeated_flags [OF p2, where f = "''-uid''" and v = "''b''"
      and prog = "''gpuowl''" and post = "[]"
      and a = "Args_init\<lparr>uid := ''b'', saveStep := 10000000, checkStep := 200000\<rparr>"
      and out' = "[(config_fmt, [D 20000, D 10000000, D 200000, S '' -uid b''])]"]
  note t3 = C9_repeated_flags [OF p3, where f = "''-savestep''" and v = "''50000''"
      and prog = "''gpuowl''" and post = "[]"
      and a = "Args_init\<lparr>saveStep := 40000, checkStep := 200000\<rparr>"
      and out' = "[(config_fmt, [D 20000, D 40000, D 200000, S []])]"]
  have r1: "fst (parse two_devices [''gpuowl'', ''-logstep'', ''0'', ''-logstep'', ''5'']
      Args_init []) = Returned False"
    using t1 by (simp add: a)
  have r3: "sint (40000 :: int32) = max (sint (atoi ''50000'')) (sint (20000 :: int32))
       - max (sint (atoi ''50000'')) (sint (20000 :: int32)) mod sint (20000 :: int32)"
    using t3 e3 by (simp add: Args_init_def DEFAULT_LOGSTEP_def a)
  have r2: "uid (Args_init\<lparr>uid := ''b'', saveStep := 10000000, checkStep := 200000\<rparr>) = ''b''"
    using t2 e2 by simp
  from r1 r2 r3 e2 e3 show ?thesis by (simp add: a)
qed

end
